theory Spec2Isabelle
  imports Complex_Main "HOL-Library.Sublist" "HOL-Library.AList"
begin

section \<open>Loss tables from the captured output of CTGAN: \<open>src/utils.py\<close>\<close>

text \<open>
  The development embeds \<^verbatim>\<open>extract_loss_info_from_stdout\<close> of \<^verbatim>\<open>src/utils.py\<close>.
  A Python \<^verbatim>\<open>str\<close> is a \<open>string\<close>; a character is a code point below 256. The
  exceptions the function can raise are values of \<open>error\<close>, and a call returns
  \<open>error + result\<close> with \<open>Inl\<close> for the exception. The returned \<^verbatim>\<open>dict\<close> is an
  association list in insertion order, written with \<open>AList.update\<close>, which is what an
  assignment \<^verbatim>\<open>d[k] = v\<close> does to a Python dictionary: a key that is present keeps its
  place and gets the new value, a new key goes to the end.
\<close>

subsection \<open>Exceptions and values\<close>

datatype error = IndexError | ValueError string

text \<open>
  A \<^verbatim>\<open>float\<close> is an IEEE double: a finite double other than minus zero is kept as its
  exact value, a rational (\<open>Finite 0\<close> is plus zero); the others are minus zero, the two
  infinities (\<open>Infinity True\<close> is the negative one) and not-a-number.
\<close>

datatype pyfloat = Finite rat | NegZero | Infinity bool | NaN

text \<open>
  \<^verbatim>\<open>pd.DataFrame({"Epoch": ..., "Loss_G": ..., "Loss_D": ...})\<close>: three columns, which
  hold the Python values as they are. The choice of a column type by pandas, which in
  some versions refuses an integer beyond the range of a double, is not modelled.
\<close>

record dataframe =
  Epoch :: "int list"
  Loss_G :: "pyfloat list"
  Loss_D :: "pyfloat list"

definition DataFrame :: "int list \<Rightarrow> pyfloat list \<Rightarrow> pyfloat list \<Rightarrow> error + dataframe" where
  "DataFrame es gs ds =
     (if length es = length gs \<and> length gs = length ds
      then Inr \<lparr>Epoch = es, Loss_G = gs, Loss_D = ds\<rparr>
      else Inl (ValueError ''All arrays must be of the same length''))"

definition rows :: "dataframe \<Rightarrow> (int \<times> pyfloat \<times> pyfloat) list" where
  "rows df = zip (Epoch df) (zip (Loss_G df) (Loss_D df))"

subsection \<open>Characters and strings\<close>

definition newline :: char where
  "newline = CHR 0x0A"

definition isspace :: "char \<Rightarrow> bool" where
  "isspace c \<longleftrightarrow>
     c \<in> set [CHR 0x09, CHR 0x0A, CHR 0x0B, CHR 0x0C, CHR 0x0D, CHR 0x1C, CHR 0x1D,
               CHR 0x1E, CHR 0x1F, CHR 0x20, CHR 0x85, CHR 0xA0]"

definition isdigit :: "char \<Rightarrow> bool" where
  "isdigit c \<longleftrightarrow> c \<in> set ''0123456789''"

text \<open>
  The white space that \<^verbatim>\<open>int\<close> and \<^verbatim>\<open>float\<close> skip around a number: they do
  not skip the four separators 0x1C to 0x1F, which \<^verbatim>\<open>str.strip\<close> removes.
\<close>

definition isspace_number :: "char \<Rightarrow> bool" where
  "isspace_number c \<longleftrightarrow>
     c \<in> set [CHR 0x09, CHR 0x0A, CHR 0x0B, CHR 0x0C, CHR 0x0D, CHR 0x20, CHR 0x85, CHR 0xA0]"

definition strip_with :: "(char \<Rightarrow> bool) \<Rightarrow> string \<Rightarrow> string" where
  "strip_with sp s = rev (dropWhile sp (rev (dropWhile sp s)))"

text \<open>\<^verbatim>\<open>s.strip()\<close>\<close>

definition strip :: "string \<Rightarrow> string" where
  "strip s = strip_with isspace s"

text \<open>\<^verbatim>\<open>s.split("\n")\<close>: never empty, one more piece than there are line breaks.\<close>

fun split_lines :: "string \<Rightarrow> string list" where
  "split_lines [] = [[]]"
| "split_lines (c # cs) =
     (if c = newline then [] # split_lines cs
      else (case split_lines cs of
              [] \<Rightarrow> [[c]]
            | l # ls \<Rightarrow> (c # l) # ls))"

text \<open>\<^verbatim>\<open>line.startswith("Epoch")\<close>\<close>

definition startswith_Epoch :: "string \<Rightarrow> bool" where
  "startswith_Epoch line = prefix ''Epoch'' line"

subsection \<open>Numbers from text\<close>

text \<open>
  Both \<^verbatim>\<open>int\<close> and \<^verbatim>\<open>float\<close> accept an underscore between two digits and
  nowhere else, and drop it.
\<close>

fun drop_underscores :: "char \<Rightarrow> string \<Rightarrow> string option" where
  "drop_underscores prev [] = (if prev = CHR ''_'' then None else Some [])"
| "drop_underscores prev (c # cs) =
     (if c = CHR ''_'' then
        (if isdigit prev then drop_underscores c cs else None)
      else if prev = CHR ''_'' \<and> \<not> isdigit c then None
      else (case drop_underscores c cs of None \<Rightarrow> None | Some r \<Rightarrow> Some (c # r)))"

definition digit_val :: "char \<Rightarrow> nat" where
  "digit_val c = of_char c - 48"

definition digits_val :: "string \<Rightarrow> nat" where
  "digits_val ds = foldl (\<lambda>a c. 10 * a + digit_val c) 0 ds"

text \<open>An optional sign: whether it is a minus, and the rest.\<close>

fun take_sign :: "string \<Rightarrow> bool \<times> string" where
  "take_sign [] = (False, [])"
| "take_sign (c # cs) =
     (if c = CHR ''-'' then (True, cs)
      else if c = CHR ''+'' then (False, cs)
      else (False, c # cs))"

text \<open>
  \<^verbatim>\<open>int(s)\<close> in base ten. The source applies it to the digits that \<^verbatim>\<open>(\d+)\<close> has
  captured; the bound that recent CPython versions put on the number of digits of such a
  text is not modelled.
\<close>

definition py_int :: "string \<Rightarrow> error + int" where
  "py_int s =
     (case drop_underscores (CHR 0x00) s of
        None \<Rightarrow> Inl (ValueError s)
      | Some t \<Rightarrow>
          (case take_sign (strip_with isspace_number t) of
             (neg, ds) \<Rightarrow>
               if ds \<noteq> [] \<and> list_all isdigit ds
               then Inr (if neg then - int (digits_val ds) else int (digits_val ds))
               else Inl (ValueError s)))"

definition lower :: "char \<Rightarrow> char" where
  "lower c = (let n = of_char c :: nat in if 65 \<le> n \<and> n \<le> 90 then char_of (n + 32) else c)"

definition scale10 :: "nat \<Rightarrow> int \<Rightarrow> rat" where
  "scale10 m e = (if 0 \<le> e then of_nat m * 10 ^ nat e else of_nat m / 10 ^ nat (- e))"

text \<open>
  The double nearest to a rational, as \<^verbatim>\<open>float\<close> rounds the value of a decimal text: to
  53 significant bits (fewer below \<open>2 ^ - 1022\<close>, in steps of \<open>2 ^ - 1074\<close>), ties to the even
  neighbour; to an infinity when the rounded value \<open>n * 2 ^ u\<close> reaches \<open>2 ^ 1024\<close>, and to a
  zero that keeps the sign.
\<close>

definition pow2 :: "int \<Rightarrow> rat" where
  "pow2 k = (if 0 \<le> k then 2 ^ nat k else 1 / 2 ^ nat (- k))"

fun bit_length :: "nat \<Rightarrow> nat" where
  "bit_length n = (if n = 0 then 0 else Suc (bit_length (n div 2)))"

declare bit_length.simps [simp del]

text \<open>For \<open>q > 0\<close>, the \<open>e\<close> with \<open>2 ^ e \<le> q < 2 ^ (e + 1)\<close>.\<close>

definition floor_log2 :: "rat \<Rightarrow> int" where
  "floor_log2 q =
     (case quotient_of q of
        (a, b) \<Rightarrow>
          let d = int (bit_length (nat a)) - int (bit_length (nat b))
          in if pow2 d \<le> q then d else d - 1)"

definition round_half_even :: "rat \<Rightarrow> int" where
  "round_half_even x =
     (let n = \<lfloor>x\<rfloor>; r = x - of_int n
      in if r < 1 / 2 then n
         else if 1 / 2 < r then n + 1
         else if even n then n else n + 1)"

text \<open>The double for a sign and a magnitude \<open>q \<ge> 0\<close>.\<close>

definition nearest_double :: "bool \<Rightarrow> rat \<Rightarrow> pyfloat" where
  "nearest_double neg q =
     (if q = 0 then (if neg then NegZero else Finite 0)
      else
        let e = max (floor_log2 q) (- 1022);
            u = e - 52;
            n = round_half_even (q / pow2 u);
            v = of_int n * pow2 u
        in if 1023 < e \<or> (e = 1023 \<and> n = 2 ^ 53) then Infinity neg
           else if n = 0 then (if neg then NegZero else Finite 0)
           else Finite (if neg then - v else v))"

text \<open>
  \<^verbatim>\<open>float(s)\<close>: white space around, a sign, then \<^verbatim>\<open>inf\<close>, \<^verbatim>\<open>infinity\<close> or \<^verbatim>\<open>nan\<close> in
  any case, or digits with an optional point and an optional exponent, whose value is
  rounded to the nearest double. Anything else is a \<^verbatim>\<open>ValueError\<close> that quotes the text.
\<close>

definition py_float :: "string \<Rightarrow> error + pyfloat" where
  "py_float s =
     (case drop_underscores (CHR 0x00) s of
        None \<Rightarrow> Inl (ValueError s)
      | Some t \<Rightarrow>
          (case take_sign (strip_with isspace_number t) of
             (neg, v) \<Rightarrow>
               if map lower v = ''inf'' \<or> map lower v = ''infinity'' then Inr (Infinity neg)
               else if map lower v = ''nan'' then Inr NaN
               else
                 let ip = takeWhile isdigit v;
                     r1 = dropWhile isdigit v;
                     fp = (case r1 of [] \<Rightarrow> [] | c # r \<Rightarrow>
                             if c = CHR ''.'' then takeWhile isdigit r else []);
                     r2 = (case r1 of [] \<Rightarrow> [] | c # r \<Rightarrow>
                             if c = CHR ''.'' then dropWhile isdigit r else r1);
                     m = digits_val (ip @ fp)
                 in
                   if ip = [] \<and> fp = [] then Inl (ValueError s)
                   else
                     (case r2 of
                        [] \<Rightarrow> Inr (nearest_double neg (scale10 m (- int (length fp))))
                      | c # r3 \<Rightarrow>
                          if c = CHR ''e'' \<or> c = CHR ''E'' then
                            (case take_sign r3 of
                               (eneg, ds) \<Rightarrow>
                                 if ds \<noteq> [] \<and> list_all isdigit ds
                                 then Inr (nearest_double neg (scale10 m
                                        ((if eneg then - int (digits_val ds) else int (digits_val ds))
                                          - int (length fp))))
                                 else Inl (ValueError s))
                          else Inl (ValueError s))))"

subsection \<open>The regular expressions of the source\<close>

text \<open>
  The four patterns of the source are sequences of literal text and capture groups
  \<^verbatim>\<open>(c+?)\<close> and \<^verbatim>\<open>(c+)\<close> over a class \<open>c\<close> of characters. A dot stands for any
  character under \<^verbatim>\<open>re.DOTALL\<close> and for any character but the line break without it.
\<close>

datatype cls = AnyChar | NoNewline | Digit

fun cls_ok :: "cls \<Rightarrow> char \<Rightarrow> bool" where
  "cls_ok AnyChar c = True"
| "cls_ok NoNewline c = (c \<noteq> newline)"
| "cls_ok Digit c = isdigit c"

datatype item = Lit string | LazyGroup cls | GreedyGroup cls

text \<open>
  The matcher backtracks as Python's does. \<open>k\<close> is the match of the rest of the pattern.
  A lazy group takes one character and tries the rest, and takes one more only when the
  rest fails; a greedy group takes all it can and gives characters back one at a time.
\<close>

fun lazy_plus :: "(char \<Rightarrow> bool) \<Rightarrow> (string \<Rightarrow> 'a option) \<Rightarrow> string \<Rightarrow> (string \<times> 'a) option" where
  "lazy_plus c k [] = None"
| "lazy_plus c k (x # xs) =
     (if c x then
        (case k xs of
           Some r \<Rightarrow> Some ([x], r)
         | None \<Rightarrow>
             (case lazy_plus c k xs of
                Some (g, r) \<Rightarrow> Some (x # g, r)
              | None \<Rightarrow> None))
      else None)"

fun greedy_plus :: "(char \<Rightarrow> bool) \<Rightarrow> (string \<Rightarrow> 'a option) \<Rightarrow> string \<Rightarrow> (string \<times> 'a) option" where
  "greedy_plus c k [] = None"
| "greedy_plus c k (x # xs) =
     (if c x then
        (case greedy_plus c k xs of
           Some (g, r) \<Rightarrow> Some (x # g, r)
         | None \<Rightarrow>
             (case k xs of
                Some r \<Rightarrow> Some ([x], r)
              | None \<Rightarrow> None))
      else None)"

text \<open>A match at the start of \<open>s\<close>: the groups and the text after the match.\<close>

primrec match_here :: "item list \<Rightarrow> string \<Rightarrow> (string list \<times> string) option" where
  "match_here [] s = Some ([], s)"
| "match_here (it # its) s =
     (case it of
        Lit l \<Rightarrow> (if prefix l s then match_here its (drop (length l) s) else None)
      | LazyGroup c \<Rightarrow>
          (case lazy_plus (cls_ok c) (match_here its) s of
             Some (g, gs, rest) \<Rightarrow> Some (g # gs, rest)
           | None \<Rightarrow> None)
      | GreedyGroup c \<Rightarrow>
          (case greedy_plus (cls_ok c) (match_here its) s of
             Some (g, gs, rest) \<Rightarrow> Some (g # gs, rest)
           | None \<Rightarrow> None))"

text \<open>
  \<^verbatim>\<open>re.findall\<close>: the matches from left to right, none overlapping another; each match
  is the list of its groups. After a match the search goes on behind it (one character
  further when the match was empty).
\<close>

function findall :: "item list \<Rightarrow> string \<Rightarrow> string list list" where
  "findall p s =
     (case match_here p s of
        Some (gs, rest) \<Rightarrow>
          (if length rest < length s then gs # findall p rest
           else gs # (case s of [] \<Rightarrow> [] | _ # t \<Rightarrow> findall p t))
      | None \<Rightarrow> (case s of [] \<Rightarrow> [] | _ # t \<Rightarrow> findall p t))"
  by pat_completeness auto
termination
  by (relation "measure (\<lambda>(p, s). length s)") auto

text \<open>\<^verbatim>\<open>re.findall(p, line)[0]\<close> for a pattern of one group.\<close>

definition first_found :: "item list \<Rightarrow> string \<Rightarrow> error + string" where
  "first_found p line =
     (case findall p line of
        [] \<Rightarrow> Inl IndexError
      | gs # _ \<Rightarrow> (case gs of [] \<Rightarrow> Inl IndexError | g # _ \<Rightarrow> Inr g))"

text \<open>\<^verbatim>\<open>match[i]\<close> on the tuple of groups.\<close>

definition idx :: "'a list \<Rightarrow> nat \<Rightarrow> error + 'a" where
  "idx xs i = (if i < length xs then Inr (xs ! i) else Inl IndexError)"

text \<open>\<^verbatim>\<open>r"#START#\n(.+?)\n(.+?)#END#"\<close> with \<^verbatim>\<open>re.DOTALL\<close>\<close>

definition block_pattern :: "item list" where
  "block_pattern =
     [Lit ''#START#\<newline>'', LazyGroup AnyChar, Lit ''\<newline>'', LazyGroup AnyChar, Lit ''#END#'']"

text \<open>\<^verbatim>\<open>r"Epoch (\d+)"\<close>, \<^verbatim>\<open>r"Loss G: (.+?),"\<close> and \<^verbatim>\<open>r"Loss D: (.+)"\<close>\<close>

definition epoch_pattern :: "item list" where
  "epoch_pattern = [Lit ''Epoch '', GreedyGroup Digit]"

definition loss_g_pattern :: "item list" where
  "loss_g_pattern = [Lit ''Loss G: '', LazyGroup NoNewline, Lit '','']"

definition loss_d_pattern :: "item list" where
  "loss_d_pattern = [Lit ''Loss D: '', GreedyGroup NoNewline]"

subsection \<open>\<^verbatim>\<open>extract_loss_info_from_stdout\<close>\<close>

text \<open>A list comprehension whose element expression may raise stops at the first raise.\<close>

fun map_err :: "('a \<Rightarrow> error + 'b) \<Rightarrow> 'a list \<Rightarrow> error + 'b list" where
  "map_err f [] = Inr []"
| "map_err f (x # xs) =
     (case f x of
        Inl e \<Rightarrow> Inl e
      | Inr y \<Rightarrow> (case map_err f xs of Inl e \<Rightarrow> Inl e | Inr ys \<Rightarrow> Inr (y # ys)))"

definition then_err :: "error + 'a \<Rightarrow> ('a \<Rightarrow> error + 'b) \<Rightarrow> error + 'b" where
  "then_err r f = (case r of Inl e \<Rightarrow> Inl e | Inr v \<Rightarrow> f v)"

definition epoch_of :: "string \<Rightarrow> error + int" where
  "epoch_of line = then_err (first_found epoch_pattern line) py_int"

definition loss_g_of :: "string \<Rightarrow> error + pyfloat" where
  "loss_g_of line = then_err (first_found loss_g_pattern line) py_float"

definition loss_d_of :: "string \<Rightarrow> error + pyfloat" where
  "loss_d_of line = then_err (first_found loss_d_pattern line) py_float"

text \<open>The lines a comprehension of the source runs over.\<close>

definition epoch_lines :: "string \<Rightarrow> string list" where
  "epoch_lines data_str = filter startswith_Epoch (split_lines data_str)"

text \<open>
  The body of the loop from \<^verbatim>\<open>epoch_list\<close> to \<^verbatim>\<open>df\<close>: three passes over the lines
  of the block, one for each column, then the table.
\<close>

definition block_df :: "string \<Rightarrow> error + dataframe" where
  "block_df data_str =
     then_err (map_err epoch_of (epoch_lines data_str)) (\<lambda>epoch_list.
     then_err (map_err loss_g_of (epoch_lines data_str)) (\<lambda>loss_g_list.
     then_err (map_err loss_d_of (epoch_lines data_str)) (\<lambda>loss_d_list.
       DataFrame epoch_list loss_g_list loss_d_list)))"

text \<open>\<^verbatim>\<open>match[0].strip()\<close>\<close>

definition dataset_id_of :: "string list \<Rightarrow> error + string" where
  "dataset_id_of match = then_err (idx match 0) (\<lambda>header. Inr (strip header))"

text \<open>The loop over the matches, with the dictionary built so far.\<close>

fun process :: "string list list \<Rightarrow> (string \<times> dataframe) list \<Rightarrow> error + (string \<times> dataframe) list" where
  "process [] output_dict = Inr output_dict"
| "process (match # matches) output_dict =
     then_err (dataset_id_of match) (\<lambda>dataset_id.
     then_err (idx match 1) (\<lambda>data_str.
     then_err (block_df data_str) (\<lambda>df.
       process matches (AList.update dataset_id df output_dict))))"

definition extract_loss_info_from_stdout :: "string \<Rightarrow> error + (string \<times> dataframe) list" where
  "extract_loss_info_from_stdout input_str = process (findall block_pattern input_str) []"

subsection \<open>The rows a block should yield\<close>

text \<open>Follows the specification, not the source: an epoch line is read once, its three
  fields together, and the row is rejected when one of them cannot be read.\<close>

definition row_of :: "string \<Rightarrow> error + (int \<times> pyfloat \<times> pyfloat)" where
  "row_of line =
     then_err (epoch_of line) (\<lambda>e.
     then_err (loss_g_of line) (\<lambda>g.
     then_err (loss_d_of line) (\<lambda>d. Inr (e, g, d))))"

section \<open>Properties of the matcher\<close>

lemma lazy_plus_SomeD:
  "lazy_plus c k s = Some (g, r) \<Longrightarrow>
     g \<noteq> [] \<and> list_all c g \<and> (\<exists>rest. s = g @ rest \<and> k rest = Some r)"
  by (induction c k s arbitrary: g r rule: lazy_plus.induct)
     (auto split: if_splits option.splits)

lemma greedy_plus_SomeD:
  "greedy_plus c k s = Some (g, r) \<Longrightarrow>
     g \<noteq> [] \<and> list_all c g \<and> (\<exists>rest. s = g @ rest \<and> k rest = Some r)"
  by (induction c k s arbitrary: g r rule: greedy_plus.induct)
     (auto split: if_splits option.splits)

lemma lazy_plus_first:
  "g \<noteq> [] \<Longrightarrow> list_all c g \<Longrightarrow> k rest = Some r \<Longrightarrow>
   (\<And>g1 g2. g = g1 @ g2 \<Longrightarrow> g1 \<noteq> [] \<Longrightarrow> g2 \<noteq> [] \<Longrightarrow> k (g2 @ rest) = None) \<Longrightarrow>
   lazy_plus c k (g @ rest) = Some (g, r)"
proof (induction g)
  case Nil
  then show ?case by simp
next
  case (Cons x g)
  show ?case
  proof (cases "g = []")
    case True
    with Cons.prems show ?thesis by simp
  next
    case False
    have none: "k (g @ rest) = None"
      using Cons.prems(4) [of "[x]" g] False by simp
    have later: "\<And>g1 g2. g = g1 @ g2 \<Longrightarrow> g1 \<noteq> [] \<Longrightarrow> g2 \<noteq> [] \<Longrightarrow> k (g2 @ rest) = None"
      using Cons.prems(4) by (metis append_Cons list.distinct(1))
    have "lazy_plus c k (g @ rest) = Some (g, r)"
      using Cons.IH False Cons.prems(2,3) later by simp
    with none Cons.prems(2) show ?thesis by simp
  qed
qed

lemma match_here_suffix:
  "match_here p s = Some (gs, rest) \<Longrightarrow> suffix rest s"
proof (induction p arbitrary: s gs rest)
  case Nil
  then show ?case by simp
next
  case (Cons it its)
  show ?case
  proof (cases it)
    case (Lit l)
    with Cons.prems have "match_here its (drop (length l) s) = Some (gs, rest)"
      by (simp split: if_splits)
    then have "suffix rest (drop (length l) s)" by (rule Cons.IH)
    then show ?thesis by (rule suffix_order.trans [OF _ suffix_drop])
  next
    case (LazyGroup c)
    with Cons.prems obtain g gs' where
      l: "lazy_plus (cls_ok c) (match_here its) s = Some (g, gs', rest)"
      by (simp split: option.splits prod.splits)
    from lazy_plus_SomeD [OF l] obtain t where t: "s = g @ t" "match_here its t = Some (gs', rest)"
      by auto
    from Cons.IH [OF t(2)] t(1) show ?thesis by (simp add: suffix_append)
  next
    case (GreedyGroup c)
    with Cons.prems obtain g gs' where
      l: "greedy_plus (cls_ok c) (match_here its) s = Some (g, gs', rest)"
      by (simp split: option.splits prod.splits)
    from greedy_plus_SomeD [OF l] obtain t where t: "s = g @ t" "match_here its t = Some (gs', rest)"
      by auto
    from Cons.IH [OF t(2)] t(1) show ?thesis by (simp add: suffix_append)
  qed
qed

lemma match_lit_cons:
  "match_here (Lit l # its) s = Some r \<longleftrightarrow> (\<exists>t. s = l @ t \<and> match_here its t = Some r)"
  by (auto simp: prefix_def)

lemma match_lazy_cons:
  "match_here (LazyGroup c # its) s = Some (gs, rest) \<longleftrightarrow>
     (\<exists>g gs'. gs = g # gs' \<and> lazy_plus (cls_ok c) (match_here its) s = Some (g, gs', rest))"
  by (auto split: option.splits)

lemma block_match_shape:
  assumes "match_here block_pattern t = Some (gs, rest)"
  shows "\<exists>h b. gs = [h, b] \<and> h \<noteq> [] \<and> b \<noteq> [] \<and>
           t = ''#START#\<newline>'' @ h @ ''\<newline>'' @ b @ ''#END#'' @ rest"
proof -
  let ?k2 = "match_here [Lit ''#END#'']"
  let ?k1 = "match_here [Lit ''\<newline>'', LazyGroup AnyChar, Lit ''#END#'']"
  from assms obtain t1 where t: "t = ''#START#\<newline>'' @ t1"
    and m1: "match_here [LazyGroup AnyChar, Lit ''\<newline>'', LazyGroup AnyChar, Lit ''#END#''] t1 = Some (gs, rest)"
    unfolding block_pattern_def match_lit_cons by blast
  from m1 obtain h gs1 where gs: "gs = h # gs1"
    and l1: "lazy_plus (cls_ok AnyChar) ?k1 t1 = Some (h, gs1, rest)"
    unfolding match_lazy_cons by blast
  from lazy_plus_SomeD [OF l1] obtain t2 where
    h: "h \<noteq> []" "t1 = h @ t2" "?k1 t2 = Some (gs1, rest)" by blast
  from h(3) obtain t3 where t2: "t2 = ''\<newline>'' @ t3"
    and m2: "match_here [LazyGroup AnyChar, Lit ''#END#''] t3 = Some (gs1, rest)"
    unfolding match_lit_cons by blast
  from m2 obtain b gs2 where gs1: "gs1 = b # gs2"
    and l2: "lazy_plus (cls_ok AnyChar) ?k2 t3 = Some (b, gs2, rest)"
    unfolding match_lazy_cons by blast
  from lazy_plus_SomeD [OF l2] obtain t4 where
    b: "b \<noteq> []" "t3 = b @ t4" "?k2 t4 = Some (gs2, rest)" by blast
  from b(3) obtain t5 where "t4 = ''#END#'' @ t5" "match_here [] t5 = Some (gs2, rest)"
    unfolding match_lit_cons by blast
  then have "t4 = ''#END#'' @ rest" "gs2 = []" by simp_all
  with t h(1,2) t2 b(1,2) gs gs1 show ?thesis by blast
qed

subsection \<open>\<open>findall\<close>\<close>

declare findall.simps [simp del]

lemma findall_miss:
  "match_here p (x # s) = None \<Longrightarrow> findall p (x # s) = findall p s"
  by (subst findall.simps) simp

lemma findall_end:
  "match_here p [] = None \<Longrightarrow> findall p [] = []"
  by (subst findall.simps) simp

lemma findall_hit:
  "match_here p s = Some (gs, rest) \<Longrightarrow> length rest < length s \<Longrightarrow>
     findall p s = gs # findall p rest"
  by (subst findall.simps) simp

lemma findall_none:
  "(\<And>t. suffix t s \<Longrightarrow> match_here p t = None) \<Longrightarrow> findall p s = []"
proof (induction s)
  case Nil
  then show ?case by (simp add: findall_end)
next
  case (Cons x s)
  have "findall p s = []"
    by (rule Cons.IH) (simp add: Cons.prems suffix_Cons)
  moreover have "match_here p (x # s) = None"
    by (rule Cons.prems) simp
  ultimately show ?case by (simp add: findall_miss)
qed

lemma findall_found:
  "gs \<in> set (findall p s) \<Longrightarrow> \<exists>t rest. suffix t s \<and> match_here p t = Some (gs, rest)"
proof (induction s rule: length_induct)
  case (1 s)
  show ?case
  proof (cases "match_here p s")
    case None
    show ?thesis
    proof (cases s)
      case Nil
      with None 1 show ?thesis by (simp add: findall_end)
    next
      case (Cons x s')
      with None 1 have "gs \<in> set (findall p s')" by (simp add: findall_miss)
      with 1 Cons obtain t rest where "suffix t s'" "match_here p t = Some (gs, rest)"
        by fastforce
      with Cons show ?thesis by (auto simp: suffix_Cons)
    qed
  next
    case (Some r)
    obtain gs' rest' where r: "r = (gs', rest')" by (cases r)
    have suf: "suffix rest' s" using Some r match_here_suffix by blast
    show ?thesis
    proof (cases "gs = gs'")
      case True
      with Some r show ?thesis by blast
    next
      case False
      have "\<exists>u. length u < length s \<and> suffix u s \<and> gs \<in> set (findall p u)"
      proof (cases "length rest' < length s")
        case True
        with Some r 1(2) False suf show ?thesis
          by (auto simp: findall_hit)
      next
        case False
        note nl = False
        show ?thesis
        proof (cases s)
          case Nil
          with Some r 1(2) \<open>gs \<noteq> gs'\<close> show ?thesis
            by (subst (asm) findall.simps) simp
        next
          case (Cons x s')
          with Some r 1(2) \<open>gs \<noteq> gs'\<close> nl have "gs \<in> set (findall p s')"
            by (subst (asm) findall.simps) simp
          with Cons show ?thesis by (auto simp: suffix_Cons)
        qed
      qed
      then obtain u where u: "length u < length s" "suffix u s" "gs \<in> set (findall p u)" by blast
      with 1(1) obtain t rest where "suffix t u" "match_here p t = Some (gs, rest)" by blast
      with u(2) show ?thesis by (meson suffix_order.trans)
    qed
  qed
qed

section \<open>Properties of the table of one block\<close>

lemma then_err_Inr:
  "then_err r f = Inr y \<longleftrightarrow> (\<exists>v. r = Inr v \<and> f v = Inr y)"
  by (cases r) (simp_all add: then_err_def)

lemma then_err_Inl:
  "then_err r f = Inl e \<longleftrightarrow> r = Inl e \<or> (\<exists>v. r = Inr v \<and> f v = Inl e)"
  by (cases r) (simp_all add: then_err_def)

lemma then_err_simps [simp]:
  "then_err (Inl e) f = Inl e" "then_err (Inr v) f = f v"
  by (simp_all add: then_err_def)

lemma map_err_Inr:
  "map_err f xs = Inr ys \<longleftrightarrow> list_all2 (\<lambda>x y. f x = Inr y) xs ys"
proof (induction xs arbitrary: ys)
  case Nil
  then show ?case by auto
next
  case (Cons x xs)
  show ?case
  proof (cases ys)
    case Nil
    then show ?thesis by (simp split: sum.splits)
  next
    case (Cons y ys')
    show ?thesis
      unfolding Cons list_all2_Cons Cons.IH [symmetric]
      by (auto split: sum.splits)
  qed
qed

lemma map_err_Inl:
  "(\<exists>e. map_err f xs = Inl e) \<longleftrightarrow> (\<exists>x \<in> set xs. \<exists>e. f x = Inl e)"
  by (induction xs) (auto split: sum.splits)

lemma map_err_cases:
  "(\<exists>e. map_err f xs = Inl e) \<or> (\<exists>ys. map_err f xs = Inr ys)"
  by (cases "map_err f xs") auto


lemma row_of_Inr:
  "row_of line = Inr (e, g, d) \<longleftrightarrow>
     epoch_of line = Inr e \<and> loss_g_of line = Inr g \<and> loss_d_of line = Inr d"
  by (auto simp: row_of_def then_err_Inr)

lemma block_df_Inr:
  "block_df b = Inr df \<longleftrightarrow>
     map_err epoch_of (epoch_lines b) = Inr (Epoch df) \<and>
     map_err loss_g_of (epoch_lines b) = Inr (Loss_G df) \<and>
     map_err loss_d_of (epoch_lines b) = Inr (Loss_D df) \<and> dataframe.more df = ()"
proof
  assume "block_df b = Inr df"
  then obtain es gs ds where
    c: "map_err epoch_of (epoch_lines b) = Inr es" "map_err loss_g_of (epoch_lines b) = Inr gs"
       "map_err loss_d_of (epoch_lines b) = Inr ds" and d: "DataFrame es gs ds = Inr df"
    unfolding block_df_def then_err_Inr by blast
  from d have "df = \<lparr>Epoch = es, Loss_G = gs, Loss_D = ds\<rparr>"
    by (simp add: DataFrame_def split: if_splits)
  with c show "map_err epoch_of (epoch_lines b) = Inr (Epoch df) \<and>
     map_err loss_g_of (epoch_lines b) = Inr (Loss_G df) \<and>
     map_err loss_d_of (epoch_lines b) = Inr (Loss_D df) \<and> dataframe.more df = ()" by simp
next
  assume a: "map_err epoch_of (epoch_lines b) = Inr (Epoch df) \<and>
     map_err loss_g_of (epoch_lines b) = Inr (Loss_G df) \<and>
     map_err loss_d_of (epoch_lines b) = Inr (Loss_D df) \<and> dataframe.more df = ()"
  then have "length (Epoch df) = length (epoch_lines b)" "length (Loss_G df) = length (epoch_lines b)"
    "length (Loss_D df) = length (epoch_lines b)"
    by (auto simp: map_err_Inr dest: list_all2_lengthD)
  then have "DataFrame (Epoch df) (Loss_G df) (Loss_D df) = Inr df"
    by (simp add: DataFrame_def)
  with a show "block_df b = Inr df"
    by (simp add: block_df_def)
qed

lemma block_df_rows:
  assumes "block_df b = Inr df"
  shows "map_err row_of (epoch_lines b) = Inr (rows df)"
proof -
  from assms have
    e: "list_all2 (\<lambda>x y. epoch_of x = Inr y) (epoch_lines b) (Epoch df)" and
    g: "list_all2 (\<lambda>x y. loss_g_of x = Inr y) (epoch_lines b) (Loss_G df)" and
    d: "list_all2 (\<lambda>x y. loss_d_of x = Inr y) (epoch_lines b) (Loss_D df)"
    by (simp_all add: block_df_Inr map_err_Inr)
  have "list_all2 (\<lambda>x y. row_of x = Inr y) (epoch_lines b) (rows df)"
    unfolding list_all2_conv_all_nth rows_def
    using e g d by (auto simp: list_all2_conv_all_nth row_of_Inr)
  then show ?thesis by (simp add: map_err_Inr)
qed

lemma block_df_fails:
  "(\<exists>e. block_df b = Inl e) \<longleftrightarrow> (\<exists>line \<in> set (epoch_lines b). \<exists>e. row_of line = Inl e)"
proof
  assume "\<exists>e. block_df b = Inl e"
  then obtain e where e: "block_df b = Inl e" ..
  have "\<not> (\<forall>line \<in> set (epoch_lines b). \<exists>r. row_of line = Inr r)"
  proof
    assume all: "\<forall>line \<in> set (epoch_lines b). \<exists>r. row_of line = Inr r"
    have "\<not> (\<exists>e. map_err epoch_of (epoch_lines b) = Inl e)"
      "\<not> (\<exists>e. map_err loss_g_of (epoch_lines b) = Inl e)"
      "\<not> (\<exists>e. map_err loss_d_of (epoch_lines b) = Inl e)"
      unfolding map_err_Inl using all by (fastforce simp: row_of_def then_err_Inr)+
    then obtain es gs ds where c: "map_err epoch_of (epoch_lines b) = Inr es"
      "map_err loss_g_of (epoch_lines b) = Inr gs" "map_err loss_d_of (epoch_lines b) = Inr ds"
      using map_err_cases by metis
    then have "length es = length (epoch_lines b)" "length gs = length (epoch_lines b)"
      "length ds = length (epoch_lines b)"
      by (auto simp: map_err_Inr dest: list_all2_lengthD)
    with c have "block_df b = Inr \<lparr>Epoch = es, Loss_G = gs, Loss_D = ds\<rparr>"
      by (simp add: block_df_def DataFrame_def)
    with e show False by simp
  qed
  then obtain line where "line \<in> set (epoch_lines b)" "\<forall>r. row_of line \<noteq> Inr r" by blast
  then show "\<exists>line \<in> set (epoch_lines b). \<exists>e. row_of line = Inl e"
    by (metis sum.exhaust)
next
  assume "\<exists>line \<in> set (epoch_lines b). \<exists>e. row_of line = Inl e"
  then obtain line e where l: "line \<in> set (epoch_lines b)" "row_of line = Inl e" by blast
  have "\<not> (\<exists>df. block_df b = Inr df)"
  proof
    assume "\<exists>df. block_df b = Inr df"
    then obtain df where "block_df b = Inr df" ..
    then have "map_err row_of (epoch_lines b) = Inr (rows df)" by (rule block_df_rows)
    then have "\<not> (\<exists>e. map_err row_of (epoch_lines b) = Inl e)" by simp
    with l show False unfolding map_err_Inl by blast
  qed
  then show "\<exists>e. block_df b = Inl e" by (metis sum.exhaust)
qed

section \<open>Properties of the loop over the blocks\<close>

lemma then_err_assoc:
  "then_err (then_err r f) g = then_err r (\<lambda>v. then_err (f v) g)"
  by (cases r) simp_all

lemma then_err_fails:
  "(\<And>v. \<exists>e. f v = Inl e) \<Longrightarrow> \<exists>e. then_err r f = Inl e"
  by (cases r) simp_all

lemma dataset_id_of_pair [simp]: "dataset_id_of [h, b] = Inr (strip h)"
  by (simp add: dataset_id_of_def idx_def)

lemma process_pair:
  "process ([h, b] # ms) out =
     then_err (block_df b) (\<lambda>df. process ms (AList.update (strip h) df out))"
  by (simp add: idx_def)

lemma process_append:
  "process (xs @ ys) out = then_err (process xs out) (process ys)"
proof (induction xs arbitrary: out)
  case Nil
  then show ?case by simp
next
  case (Cons m xs)
  show ?case
    by (simp add: Cons.IH then_err_assoc)
qed

lemma process_keeps:
  "process ms out = Inr out' \<Longrightarrow> (\<And>m. m \<in> set ms \<Longrightarrow> dataset_id_of m \<noteq> Inr k) \<Longrightarrow>
     map_of out' k = map_of out k"
proof (induction ms arbitrary: out)
  case Nil
  then show ?case by simp
next
  case (Cons m ms)
  from Cons.prems(1) obtain i b df where
    s: "dataset_id_of m = Inr i" "idx m 1 = Inr b" "block_df b = Inr df"
       "process ms (AList.update i df out) = Inr out'"
    by (auto simp: then_err_Inr)
  from Cons.prems(2) [of m] s(1) have "i \<noteq> k" by auto
  have "map_of out' k = map_of (AList.update i df out) k"
    by (rule Cons.IH [OF s(4)]) (simp add: Cons.prems(2))
  with \<open>i \<noteq> k\<close> show ?case by (simp add: update_conv')
qed

lemma process_distinct:
  "process ms out = Inr out' \<Longrightarrow> distinct (map fst out) \<Longrightarrow> distinct (map fst out')"
proof (induction ms arbitrary: out)
  case Nil
  then show ?case by simp
next
  case (Cons m ms)
  from Cons.prems(1) obtain i b df where
    s: "process ms (AList.update i df out) = Inr out'"
    by (auto simp: then_err_Inr)
  show ?case
    by (rule Cons.IH [OF s]) (rule distinct_update [OF Cons.prems(2)])
qed

lemma process_last:
  assumes "process (pre @ [h, b] # post) out = Inr out'"
    and "\<And>m. m \<in> set post \<Longrightarrow> dataset_id_of m \<noteq> Inr (strip h)"
  shows "\<exists>df. block_df b = Inr df \<and> map_of out' (strip h) = Some df"
proof -
  from assms(1) obtain o1 where o1: "process pre out = Inr o1"
    and r: "process ([h, b] # post) o1 = Inr out'"
    unfolding process_append then_err_Inr by blast
  from r obtain df where df: "block_df b = Inr df"
    and p: "process post (AList.update (strip h) df o1) = Inr out'"
    unfolding process_pair then_err_Inr by blast
  have "map_of out' (strip h) = map_of (AList.update (strip h) df o1) (strip h)"
    using p assms(2) by (rule process_keeps)
  with df show ?thesis by (simp add: update_conv')
qed

lemma process_fails:
  "[h, b] \<in> set ms \<Longrightarrow> block_df b = Inl e \<Longrightarrow> \<exists>e'. process ms out = Inl e'"
proof (induction ms arbitrary: out)
  case Nil
  then show ?case by simp
next
  case (Cons m ms)
  show ?case
  proof (cases "m = [h, b]")
    case True
    with Cons.prems(2) show ?thesis by (simp add: idx_def)
  next
    case False
    with Cons.prems have "\<And>out. \<exists>e'. process ms out = Inl e'"
      using Cons.IH by simp
    then show ?thesis
      by (simp add: then_err_fails)
  qed
qed

lemma process_fails_only:
  "process ms out = Inl e \<Longrightarrow> (\<And>m. m \<in> set ms \<Longrightarrow> \<exists>h b. m = [h, b]) \<Longrightarrow>
     \<exists>h b e'. [h, b] \<in> set ms \<and> block_df b = Inl e'"
proof (induction ms arbitrary: out)
  case Nil
  then show ?case by simp
next
  case (Cons m ms)
  from Cons.prems(2) [of m] obtain h b where m: "m = [h, b]" by auto
  show ?case
  proof (cases "block_df b")
    case (Inl e')
    with m show ?thesis by auto
  next
    case (Inr df)
    with Cons.prems(1) m have "process ms (AList.update (strip h) df out) = Inl e"
      by (simp add: idx_def)
    then have "\<exists>h b e'. [h, b] \<in> set ms \<and> block_df b = Inl e'"
      by (rule Cons.IH) (simp add: Cons.prems(2))
    then show ?thesis by auto
  qed
qed

lemma block_matches_pairs:
  "m \<in> set (findall block_pattern s) \<Longrightarrow> \<exists>h b. m = [h, b]"
proof -
  assume "m \<in> set (findall block_pattern s)"
  then obtain t rest where "match_here block_pattern t = Some (m, rest)"
    using findall_found by blast
  from block_match_shape [OF this] show ?thesis by blast
qed

subsection \<open>Dictionaries and lines\<close>

lemma distinct_key_filter:
  "distinct (map fst al) \<Longrightarrow> map_of al k = Some v \<Longrightarrow> filter (\<lambda>p. fst p = k) al = [(k, v)]"
proof (induction al)
  case Nil
  then show ?case by simp
next
  case (Cons p al)
  show ?case
  proof (cases "fst p = k")
    case True
    with Cons.prems have "p = (k, v)" by (cases p) simp
    moreover from Cons.prems(1) True have "k \<notin> fst ` set al" by simp
    then have "filter (\<lambda>p. fst p = k) al = []"
      by (auto simp: filter_empty_conv)
    ultimately show ?thesis by simp
  next
    case False
    with Cons show ?thesis by (cases p) simp
  qed
qed

lemma first_found_missing:
  "findall p line = [] \<Longrightarrow> first_found p line = Inl IndexError"
  by (simp add: first_found_def)

lemma split_lines_nonempty: "split_lines s \<noteq> []"
proof (cases s)
  case Nil
  then show ?thesis by simp
next
  case (Cons c cs)
  then show ?thesis by (cases "split_lines cs") simp_all
qed

lemma split_lines_one: "newline \<notin> set l \<Longrightarrow> split_lines l = [l]"
proof (induction l)
  case Nil
  then show ?case by simp
next
  case (Cons c l)
  then have "split_lines l = [l]" "c \<noteq> newline" by auto
  then show ?case by simp
qed


lemma split_lines_break:
  "split_lines (a @ newline # b) = split_lines a @ split_lines b"
proof (induction a)
  case Nil
  then show ?case by simp
next
  case (Cons c a)
  show ?case
  proof (cases "c = newline")
    case True
    with Cons show ?thesis by simp
  next
    case False
    obtain l ls where ls: "split_lines a = l # ls"
      using split_lines_nonempty [of a] by (cases "split_lines a") auto
    have "split_lines ((c # a) @ newline # b) = (c # l) # ls @ split_lines b"
      using False Cons ls by simp
    moreover have "split_lines (c # a) = (c # l) # ls"
      using False ls by simp
    ultimately show ?thesis by simp
  qed
qed

lemma block_df_cong:
  "epoch_lines b = epoch_lines b' \<Longrightarrow> block_df b = block_df b'"
  by (simp add: block_df_def)

subsection \<open>A block in the text\<close>

lemma match_lit_append:
  "match_here (Lit l # its) (l @ t) = match_here its t"
  by simp

lemma match_lit_miss:
  "\<not> prefix l t \<Longrightarrow> match_here (Lit l # its) t = None"
  by simp

lemma prefix_within:
  "prefix xs (ys @ zs) \<Longrightarrow> length xs \<le> length ys \<Longrightarrow> prefix xs ys"
  by (metis prefix_length_prefix prefix_order.dual_order.refl prefixI prefix_def)

lemma end_not_before:
  assumes free: "\<not> sublist ''#END#'' (tl b @ ''#END'')"
    and b: "b = g1 @ g2" "g1 \<noteq> []" "g2 \<noteq> []"
  shows "match_here [Lit ''#END#''] (g2 @ ''#END#'' @ post) = None"
proof (rule match_lit_miss, rule notI)
  assume "prefix ''#END#'' (g2 @ ''#END#'' @ post)"
  then have "prefix ''#END#'' ((g2 @ ''#END'') @ ''#'' @ post)" by simp
  moreover have "length ''#END#'' \<le> length (g2 @ ''#END'')" using b(3) by (cases g2) simp_all
  ultimately have "prefix ''#END#'' (g2 @ ''#END'')" by (rule prefix_within)
  then obtain r where r: "g2 @ ''#END'' = ''#END#'' @ r" by (auto simp: prefix_def)
  from b(1,2) have "tl b @ ''#END'' = tl g1 @ (g2 @ ''#END'')" by (cases g1) simp_all
  with r have "tl b @ ''#END'' = tl g1 @ ''#END#'' @ r" by simp
  then have "sublist ''#END#'' (tl b @ ''#END'')" unfolding sublist_def by blast
  with free show False ..
qed

lemma block_match_first:
  assumes h: "h \<noteq> []" "newline \<notin> set h"
    and b: "b \<noteq> []" "\<not> sublist ''#END#'' (tl b @ ''#END'')"
  shows "match_here block_pattern (''#START#\<newline>'' @ h @ ''\<newline>'' @ b @ ''#END#'' @ post)
           = Some ([h, b], post)"
proof -
  let ?k2 = "match_here [Lit ''#END#'']"
  let ?k1 = "match_here [Lit ''\<newline>'', LazyGroup AnyChar, Lit ''#END#'']"
  have any: "\<And>g. list_all (cls_ok AnyChar) g" by (simp add: list_all_iff)
  have e: "?k2 (''#END#'' @ post) = Some ([], post)"
    by simp
  have l2: "lazy_plus (cls_ok AnyChar) ?k2 (b @ ''#END#'' @ post) = Some (b, [], post)"
    using b(1) any e
  proof (rule lazy_plus_first)
    fix g1 g2 :: string
    assume "b = g1 @ g2" "g1 \<noteq> []" "g2 \<noteq> []"
    with b(2) show "?k2 (g2 @ ''#END#'' @ post) = None" by (rule end_not_before)
  qed
  have "match_here [LazyGroup AnyChar, Lit ''#END#''] (b @ ''#END#'' @ post) = Some ([b], post)"
    using l2 by simp
  then have k1: "?k1 (''\<newline>'' @ b @ ''#END#'' @ post) = Some ([b], post)"
    by (simp only: match_lit_append)
  have l1: "lazy_plus (cls_ok AnyChar) ?k1 (h @ ''\<newline>'' @ b @ ''#END#'' @ post) = Some (h, [b], post)"
    using h(1) any k1
  proof (rule lazy_plus_first)
    fix g1 g2 :: string
    assume g: "h = g1 @ g2" "g1 \<noteq> []" "g2 \<noteq> []"
    then obtain c g3 where g2: "g2 = c # g3" by (cases g2) auto
    with g(1) h(2) have "c \<noteq> newline" by auto
    then have "\<not> prefix ''\<newline>'' (g2 @ ''\<newline>'' @ b @ ''#END#'' @ post)"
      using g2 by (simp add: newline_def)
    then show "?k1 (g2 @ ''\<newline>'' @ b @ ''#END#'' @ post) = None"
      by (rule match_lit_miss)
  qed
  have "match_here [LazyGroup AnyChar, Lit ''\<newline>'', LazyGroup AnyChar, Lit ''#END#'']
          (h @ ''\<newline>'' @ b @ ''#END#'' @ post) = Some ([h, b], post)"
    using l1 by simp
  then show ?thesis
    unfolding block_pattern_def by (simp only: match_lit_append)
qed

lemma findall_skip:
  assumes "CHR ''#'' \<notin> set pre"
  shows "findall block_pattern (pre @ s) = findall block_pattern s"
  using assms
proof (induction pre)
  case Nil
  then show ?case by simp
next
  case (Cons c pre)
  then have "c \<noteq> CHR ''#''" by auto
  then have "\<not> prefix ''#START#\<newline>'' (c # pre @ s)" by simp
  then have "match_here block_pattern (c # pre @ s) = None"
    unfolding block_pattern_def by (rule match_lit_miss)
  then have "findall block_pattern (c # pre @ s) = findall block_pattern (pre @ s)"
    by (rule findall_miss)
  with Cons show ?case by simp
qed

lemma strip_blank: "list_all isspace h \<Longrightarrow> strip h = []"
proof -
  assume "list_all isspace h"
  then have d: "dropWhile isspace h = []" by (simp only: dropWhile_eq_Nil_conv list_all_iff)
  show ?thesis unfolding strip_def strip_with_def d by simp
qed

lemma no_match_empty_body:
  assumes h: "newline \<notin> set h"
    and free: "\<not> sublist ''#END#'' (''END#'' @ post)"
    and suf: "suffix t (''#START#\<newline>'' @ h @ ''\<newline>#END#'' @ post)"
  shows "match_here block_pattern t = None"
proof (rule ccontr)
  assume "match_here block_pattern t \<noteq> None"
  then obtain gs rest where "match_here block_pattern t = Some (gs, rest)" by auto
  from block_match_shape [OF this] obtain h' b' where
    hb: "h' \<noteq> []" "b' \<noteq> []" and
    t: "t = ''#START#\<newline>'' @ h' @ ''\<newline>'' @ b' @ ''#END#'' @ rest" by blast
  from suf obtain u where "''#START#\<newline>'' @ h @ ''\<newline>#END#'' @ post = u @ t"
    by (auto simp: suffix_def)
  with t have eq: "(''#START#\<newline>'' @ h) @ newline # (''#END#'' @ post)
      = (u @ ''#START#\<newline>'' @ h') @ newline # (b' @ ''#END#'' @ rest)"
    by (simp add: newline_def)
  have inh: "\<And>w. ''#START#\<newline>'' @ h = (u @ ''#START#\<newline>'' @ h') @ newline # w \<Longrightarrow> False"
  proof -
    fix w
    assume a: "''#START#\<newline>'' @ h = (u @ ''#START#\<newline>'' @ h') @ newline # w"
    define x where "x = u @ ''#START#\<newline>''"
    have x: "8 \<le> length x" by (simp add: x_def)
    have "h = drop 8 (''#START#\<newline>'' @ h)" by simp
    also have "\<dots> = drop 8 (x @ (h' @ newline # w))" using a by (simp add: x_def)
    also have "\<dots> = drop 8 x @ (h' @ newline # w)" using x by simp
    finally have "h = (drop 8 x @ h') @ newline # w" by simp
    then have "newline \<in> set h" by (simp only: in_set_conv_decomp) blast
    with h show False ..
  qed
  have found: "\<And>v w. v \<noteq> [] \<Longrightarrow> ''#END#'' @ post = v @ ''#END#'' @ w \<Longrightarrow> False"
  proof -
    fix v w :: string
    assume v: "v \<noteq> []" and a: "''#END#'' @ post = v @ ''#END#'' @ w"
    then have "tl (''#END#'' @ post) = tl v @ ''#END#'' @ w" by (cases v) simp_all
    then have "''END#'' @ post = tl v @ ''#END#'' @ w" by simp
    then have "sublist ''#END#'' (''END#'' @ post)" unfolding sublist_def by blast
    with free show False ..
  qed
  from eq consider us where "''#START#\<newline>'' @ h = (u @ ''#START#\<newline>'' @ h') @ us"
      "us @ newline # (''#END#'' @ post) = newline # (b' @ ''#END#'' @ rest)"
    | us where "(''#START#\<newline>'' @ h) @ us = u @ ''#START#\<newline>'' @ h'"
      "newline # (''#END#'' @ post) = us @ newline # (b' @ ''#END#'' @ rest)"
    unfolding append_eq_append_conv2 by blast
  then show False
  proof cases
    case 1
    show False
    proof (cases us)
      case Nil
      with 1(2) have "''#END#'' @ post = b' @ ''#END#'' @ rest" by simp
      with hb(2) show False by (rule found)
    next
      case (Cons c us')
      with 1(2) have "c = newline" by simp
      with 1(1) Cons show False using inh by blast
    qed
  next
    case 2
    show False
    proof (cases us)
      case Nil
      with 2(2) have "''#END#'' @ post = b' @ ''#END#'' @ rest" by simp
      with hb(2) show False by (rule found)
    next
      case (Cons c us')
      with 2(2) have "''#END#'' @ post = (us' @ newline # b') @ ''#END#'' @ rest" by simp
      moreover have "us' @ newline # b' \<noteq> []" by simp
      ultimately show False using found by blast
    qed
  qed
qed

section \<open>The claims\<close>

lemma marker_pair_sublist:
  "s = u @ a @ v @ b @ w \<Longrightarrow> sublist a s \<and> sublist b s"
proof -
  assume s: "s = u @ a @ v @ b @ w"
  then have "s = u @ a @ (v @ b @ w)" "s = (u @ a @ v) @ b @ w" by simp_all
  then show ?thesis unfolding sublist_def by blast
qed

text \<open>
  C1. The input holds one block with the header line \<open>D1\<close> and the two epoch lines
  \<open>Epoch 0 ... Loss G: 1.5, Loss D: 0.9\<close> and \<open>Epoch 1 ... Loss G: 1.2, Loss D: 0.8\<close>.
  The result is a dictionary with the single key \<open>D1\<close>; its table has the columns
  \<open>Epoch\<close>, \<open>Loss_G\<close> and \<open>Loss_D\<close> and exactly the two rows \<open>(0, 1.5, 0.9)\<close> and
  \<open>(1, 1.2, 0.8)\<close>, in that order. A loss is the double that Python writes with that
  literal: \<open>1.5\<close> is \<open>3/2\<close>, and \<open>0.9\<close>, \<open>1.2\<close> and \<open>0.8\<close> are the doubles nearest to
  \<open>9/10\<close>, \<open>6/5\<close> and \<open>4/5\<close>, whose exact values the last three equations give.
\<close>

theorem single_block_D1:
  "extract_loss_info_from_stdout
     ''#START#\<newline>D1\<newline>Epoch 0 ... Loss G: 1.5, Loss D: 0.9\<newline>Epoch 1 ... Loss G: 1.2, Loss D: 0.8\<newline>#END#''
   = Inr [(''D1'', \<lparr>Epoch = [0, 1],
                    Loss_G = [Finite (3 / 2), nearest_double False (6 / 5)],
                    Loss_D = [nearest_double False (9 / 10), nearest_double False (4 / 5)]\<rparr>)]
   \<and> rows \<lparr>Epoch = [0, 1],
            Loss_G = [Finite (3 / 2), nearest_double False (6 / 5)],
            Loss_D = [nearest_double False (9 / 10), nearest_double False (4 / 5)]\<rparr>
     = [(0, Finite (3 / 2), nearest_double False (9 / 10)),
        (1, nearest_double False (6 / 5), nearest_double False (4 / 5))]
   \<and> nearest_double False (9 / 10) = Finite (8106479329266893 / 9007199254740992)
   \<and> nearest_double False (6 / 5) = Finite (5404319552844595 / 4503599627370496)
   \<and> nearest_double False (4 / 5) = Finite (3602879701896397 / 4503599627370496)"
  by code_simp

text \<open>
  C5. An input in which no \<open>#START#\<close> is followed, anywhere later, by an \<open>#END#\<close> holds no
  block: the result is the empty dictionary, and no exception is raised.
\<close>

theorem no_marker_pair_empty:
  assumes "\<not> (\<exists>u v w. s = u @ ''#START#'' @ v @ ''#END#'' @ w)"
  shows "extract_loss_info_from_stdout s = Inr []"
proof -
  have "findall block_pattern s = []"
  proof (rule findall_none)
    fix t
    assume suf: "suffix t s"
    show "match_here block_pattern t = None"
    proof (rule ccontr)
      assume "match_here block_pattern t \<noteq> None"
      then obtain gs rest where "match_here block_pattern t = Some (gs, rest)" by auto
      from block_match_shape [OF this] obtain h b where
        "t = ''#START#\<newline>'' @ h @ ''\<newline>'' @ b @ ''#END#'' @ rest" by blast
      then have t: "t = ''#START#'' @ (''\<newline>'' @ h @ ''\<newline>'' @ b) @ ''#END#'' @ rest" by simp
      from suf obtain u where "s = u @ t" by (auto simp: suffix_def)
      with t assms show False by blast
    qed
  qed
  then show ?thesis by (simp add: extract_loss_info_from_stdout_def)
qed

theorem no_marker_pair_empty_witness:
  "\<not> (\<exists>u v w. ''Epoch 0, Loss G: 1.5, Loss D: 0.9\<newline>#END#\<newline>''
                   = u @ ''#START#'' @ v @ ''#END#'' @ w)
   \<and> extract_loss_info_from_stdout ''Epoch 0, Loss G: 1.5, Loss D: 0.9\<newline>#END#\<newline>'' = Inr []"
proof -
  have ns: "\<not> sublist ''#START#'' ''Epoch 0, Loss G: 1.5, Loss D: 0.9\<newline>#END#\<newline>''"
    by code_simp
  have h: "\<not> (\<exists>u v w. ''Epoch 0, Loss G: 1.5, Loss D: 0.9\<newline>#END#\<newline>''
                   = u @ ''#START#'' @ v @ ''#END#'' @ w)"
    using ns marker_pair_sublist by blast
  from h no_marker_pair_empty [OF h] show ?thesis by blast
qed

text \<open>
  C2, as the code has it. When a line of a matched block starts with \<open>Epoch\<close> and one of
  the three patterns finds nothing on it, \<^verbatim>\<open>re.findall(...)[0]\<close> raises and the call
  fails: no table is returned, for this block or for any other.
\<close>

theorem missing_field_fails:
  assumes "[h, b] \<in> set (findall block_pattern s)"
    and "line \<in> set (epoch_lines b)"
    and "findall epoch_pattern line = [] \<or> findall loss_g_pattern line = []
           \<or> findall loss_d_pattern line = []"
  shows "\<exists>e. extract_loss_info_from_stdout s = Inl e"
proof -
  from assms(3) have "epoch_of line = Inl IndexError \<or> loss_g_of line = Inl IndexError
      \<or> loss_d_of line = Inl IndexError"
    by (auto simp: epoch_of_def loss_g_of_def loss_d_of_def first_found_missing)
  then have "\<exists>e. row_of line = Inl e"
    by (cases "epoch_of line"; cases "loss_g_of line"; cases "loss_d_of line")
       (auto simp: row_of_def)
  with assms(2) obtain e where "block_df b = Inl e" using block_df_fails by blast
  from process_fails [OF assms(1) this] show ?thesis
    by (simp add: extract_loss_info_from_stdout_def)
qed

theorem missing_field_fails_witness:
  "[''D1'', ''Epoch 0, Loss G: 1.5\<newline>''] \<in> set (findall block_pattern ''#START#\<newline>D1\<newline>Epoch 0, Loss G: 1.5\<newline>#END#\<newline>'')
   \<and> ''Epoch 0, Loss G: 1.5'' \<in> set (epoch_lines ''Epoch 0, Loss G: 1.5\<newline>'')
   \<and> findall loss_d_pattern ''Epoch 0, Loss G: 1.5'' = []
   \<and> (\<exists>e. extract_loss_info_from_stdout ''#START#\<newline>D1\<newline>Epoch 0, Loss G: 1.5\<newline>#END#\<newline>'' = Inl e)"
proof -
  have a: "[''D1'', ''Epoch 0, Loss G: 1.5\<newline>''] \<in> set (findall block_pattern ''#START#\<newline>D1\<newline>Epoch 0, Loss G: 1.5\<newline>#END#\<newline>'')"
    by code_simp
  have b: "''Epoch 0, Loss G: 1.5'' \<in> set (epoch_lines ''Epoch 0, Loss G: 1.5\<newline>'')"
    by code_simp
  have c: "findall loss_d_pattern ''Epoch 0, Loss G: 1.5'' = []"
    by code_simp
  then have c': "findall epoch_pattern ''Epoch 0, Loss G: 1.5'' = [] \<or> findall loss_g_pattern ''Epoch 0, Loss G: 1.5'' = []
           \<or> findall loss_d_pattern ''Epoch 0, Loss G: 1.5'' = []" by blast
  from missing_field_fails [OF a b c'] a b c show ?thesis by blast
qed

text \<open>
  C2, as the claim has it, asks for an error that names the dataset identifier of the
  block and the text of the line. The exception of the code names neither: two inputs
  with different identifiers and different lines raise the same \<^verbatim>\<open>IndexError\<close>.
\<close>

theorem error_not_descriptive:
  "extract_loss_info_from_stdout ''#START#\<newline>D1\<newline>Epoch 0, Loss G: 1.5\<newline>#END#\<newline>'' = Inl IndexError
   \<and> extract_loss_info_from_stdout ''#START#\<newline>D2\<newline>Epoch 7, Loss G: 2.5\<newline>#END#\<newline>'' = Inl IndexError"
  by code_simp

text \<open>
  C3. For a call that returns, take a matched block that is the last one with its
  identifier. The table under that identifier has one row for each epoch line of the
  body, and the row at position \<open>i\<close> is what the \<open>i\<close>-th epoch line reads as: the rows
  keep the order of the lines, nothing is sorted and nothing is dropped, whatever the
  epoch numbers are.
\<close>

theorem rows_follow_lines:
  assumes "extract_loss_info_from_stdout s = Inr out"
    and "findall block_pattern s = pre @ [h, b] # post"
    and "\<forall>m \<in> set post. dataset_id_of m \<noteq> Inr (strip h)"
  shows "\<exists>df. map_of out (strip h) = Some df \<and> length (rows df) = length (epoch_lines b) \<and>
           (\<forall>i < length (epoch_lines b). row_of (epoch_lines b ! i) = Inr (rows df ! i))"
proof -
  from assms(1,2) have p: "process (pre @ [h, b] # post) [] = Inr out"
    by (simp add: extract_loss_info_from_stdout_def)
  from process_last [OF p] assms(3) obtain df where
    df: "block_df b = Inr df" "map_of out (strip h) = Some df" by blast
  from block_df_rows [OF df(1)] have "list_all2 (\<lambda>x y. row_of x = Inr y) (epoch_lines b) (rows df)"
    by (simp add: map_err_Inr)
  then have "length (rows df) = length (epoch_lines b)"
    "\<forall>i < length (epoch_lines b). row_of (epoch_lines b ! i) = Inr (rows df ! i)"
    by (simp_all add: list_all2_conv_all_nth)
  with df(2) show ?thesis by blast
qed

theorem rows_follow_lines_witness:
  "extract_loss_info_from_stdout
     ''#START#\<newline>D1\<newline>Epoch 3, Loss G: 1.5, Loss D: 0.9\<newline>Epoch 1, Loss G: 1.2, Loss D: 0.8\<newline>Epoch 3, Loss G: 0.5, Loss D: 0.25\<newline>#END#\<newline>''
     = Inr [(''D1'', \<lparr>Epoch = [3, 1, 3], Loss_G = [Finite (3 / 2), nearest_double False (6 / 5), Finite (1 / 2)],
                      Loss_D = [nearest_double False (9 / 10), nearest_double False (4 / 5), Finite (1 / 4)]\<rparr>)]
   \<and> (\<exists>df. map_of [(''D1'', \<lparr>Epoch = [3, 1, 3], Loss_G = [Finite (3 / 2), nearest_double False (6 / 5), Finite (1 / 2)],
                      Loss_D = [nearest_double False (9 / 10), nearest_double False (4 / 5), Finite (1 / 4)]\<rparr>)] (strip ''D1'') = Some df \<and>
        length (rows df) = length (epoch_lines ''Epoch 3, Loss G: 1.5, Loss D: 0.9\<newline>Epoch 1, Loss G: 1.2, Loss D: 0.8\<newline>Epoch 3, Loss G: 0.5, Loss D: 0.25\<newline>'') \<and>
        (\<forall>i < length (epoch_lines ''Epoch 3, Loss G: 1.5, Loss D: 0.9\<newline>Epoch 1, Loss G: 1.2, Loss D: 0.8\<newline>Epoch 3, Loss G: 0.5, Loss D: 0.25\<newline>'').
           row_of (epoch_lines ''Epoch 3, Loss G: 1.5, Loss D: 0.9\<newline>Epoch 1, Loss G: 1.2, Loss D: 0.8\<newline>Epoch 3, Loss G: 0.5, Loss D: 0.25\<newline>'' ! i) = Inr (rows df ! i)))"
proof -
  have a: "extract_loss_info_from_stdout
     ''#START#\<newline>D1\<newline>Epoch 3, Loss G: 1.5, Loss D: 0.9\<newline>Epoch 1, Loss G: 1.2, Loss D: 0.8\<newline>Epoch 3, Loss G: 0.5, Loss D: 0.25\<newline>#END#\<newline>''
     = Inr [(''D1'', \<lparr>Epoch = [3, 1, 3], Loss_G = [Finite (3 / 2), nearest_double False (6 / 5), Finite (1 / 2)],
                      Loss_D = [nearest_double False (9 / 10), nearest_double False (4 / 5), Finite (1 / 4)]\<rparr>)]"
    by code_simp
  have b: "findall block_pattern
     ''#START#\<newline>D1\<newline>Epoch 3, Loss G: 1.5, Loss D: 0.9\<newline>Epoch 1, Loss G: 1.2, Loss D: 0.8\<newline>Epoch 3, Loss G: 0.5, Loss D: 0.25\<newline>#END#\<newline>''
     = [] @ [''D1'', ''Epoch 3, Loss G: 1.5, Loss D: 0.9\<newline>Epoch 1, Loss G: 1.2, Loss D: 0.8\<newline>Epoch 3, Loss G: 0.5, Loss D: 0.25\<newline>''] # []"
    by code_simp
  have c: "\<forall>m \<in> set []. dataset_id_of m \<noteq> Inr (strip ''D1'')" by simp
  from rows_follow_lines [OF a b c] a show ?thesis by blast
qed

text \<open>
  C4. When two matched blocks have the same stripped header and no later block has it,
  the returned dictionary holds that identifier exactly once, and the table under it is
  the table of the later block alone.
\<close>

theorem last_block_wins:
  assumes "extract_loss_info_from_stdout s = Inr out"
    and "findall block_pattern s = pre @ [h1, b1] # mid @ [h2, b2] # post"
    and "strip h1 = strip h2"
    and "\<forall>m \<in> set post. dataset_id_of m \<noteq> Inr (strip h2)"
  shows "\<exists>df. block_df b2 = Inr df \<and> filter (\<lambda>p. fst p = strip h2) out = [(strip h2, df)]"
proof -
  from assms(1,2) have p: "process ((pre @ [h1, b1] # mid) @ [h2, b2] # post) [] = Inr out"
    by (simp add: extract_loss_info_from_stdout_def)
  from process_last [OF p] assms(4) obtain df where
    df: "block_df b2 = Inr df" "map_of out (strip h2) = Some df" by blast
  from p have "distinct (map fst out)" by (rule process_distinct) simp
  with df show ?thesis by (simp add: distinct_key_filter)
qed

theorem last_block_wins_witness:
  "extract_loss_info_from_stdout
     ''#START#\<newline>D1\<newline>Epoch 0, Loss G: 1.5, Loss D: 0.9\<newline>#END#\<newline>#START#\<newline>D1 \<newline>Epoch 5, Loss G: 0.5, Loss D: 0.25\<newline>#END#\<newline>''
     = Inr [(''D1'', \<lparr>Epoch = [5], Loss_G = [Finite (1 / 2)], Loss_D = [Finite (1 / 4)]\<rparr>)]
   \<and> strip ''D1'' = strip ''D1 ''
   \<and> (\<exists>df. block_df ''Epoch 5, Loss G: 0.5, Loss D: 0.25\<newline>'' = Inr df \<and>
         filter (\<lambda>p. fst p = strip ''D1 '')
           [(''D1'', \<lparr>Epoch = [5], Loss_G = [Finite (1 / 2)], Loss_D = [Finite (1 / 4)]\<rparr>)]
         = [(strip ''D1 '', df)])"
proof -
  have a: "extract_loss_info_from_stdout
     ''#START#\<newline>D1\<newline>Epoch 0, Loss G: 1.5, Loss D: 0.9\<newline>#END#\<newline>#START#\<newline>D1 \<newline>Epoch 5, Loss G: 0.5, Loss D: 0.25\<newline>#END#\<newline>''
     = Inr [(''D1'', \<lparr>Epoch = [5], Loss_G = [Finite (1 / 2)], Loss_D = [Finite (1 / 4)]\<rparr>)]"
    by code_simp
  have b: "findall block_pattern
     ''#START#\<newline>D1\<newline>Epoch 0, Loss G: 1.5, Loss D: 0.9\<newline>#END#\<newline>#START#\<newline>D1 \<newline>Epoch 5, Loss G: 0.5, Loss D: 0.25\<newline>#END#\<newline>''
     = [] @ [''D1'', ''Epoch 0, Loss G: 1.5, Loss D: 0.9\<newline>''] # []
          @ [''D1 '', ''Epoch 5, Loss G: 0.5, Loss D: 0.25\<newline>''] # []"
    by code_simp
  have c: "strip ''D1'' = strip ''D1 ''" by code_simp
  have d: "\<forall>m \<in> set []. dataset_id_of m \<noteq> Inr (strip ''D1 '')" by simp
  from last_block_wins [OF a b c d] a c show ?thesis by blast
qed

text \<open>
  C7. A line of a body that does not start with \<open>Epoch\<close> is ignored: with the line in
  the middle, at the start or at the end of the body, the outcome for the block (its
  table, or the exception) is the one without the line.
\<close>

theorem noise_lines_ignored:
  assumes "newline \<notin> set l" and "\<not> startswith_Epoch l"
  shows "block_df (a @ newline # l @ newline # b) = block_df (a @ newline # b)
       \<and> block_df (l @ newline # b) = block_df b
       \<and> block_df (a @ newline # l) = block_df a"
proof -
  from assms have l: "filter startswith_Epoch (split_lines l) = []"
    by (simp add: split_lines_one)
  have s1: "split_lines (a @ newline # l @ newline # b) = split_lines a @ split_lines l @ split_lines b"
    by (simp only: split_lines_break)
  have s2: "split_lines (l @ newline # b) = split_lines l @ split_lines b"
    by (simp only: split_lines_break)
  have s3: "split_lines (a @ newline # l) = split_lines a @ split_lines l"
    by (simp only: split_lines_break)
  have s4: "split_lines (a @ newline # b) = split_lines a @ split_lines b"
    by (simp only: split_lines_break)
  have e1: "epoch_lines (a @ newline # l @ newline # b) = epoch_lines (a @ newline # b)"
    unfolding epoch_lines_def s1 s4 filter_append l by simp
  have e2: "epoch_lines (l @ newline # b) = epoch_lines b"
    unfolding epoch_lines_def s2 filter_append l by simp
  have e3: "epoch_lines (a @ newline # l) = epoch_lines a"
    unfolding epoch_lines_def s3 filter_append l by simp
  from block_df_cong [OF e1] block_df_cong [OF e2] block_df_cong [OF e3]
  show ?thesis by blast
qed

theorem noise_lines_ignored_witness:
  "newline \<notin> set ''Step info: foo'' \<and> \<not> startswith_Epoch ''Step info: foo''
   \<and> block_df (''Epoch 0, Loss G: 1.5, Loss D: 0.9'' @ newline # ''Step info: foo'' @ newline # ''Epoch 1, Loss G: 1.2, Loss D: 0.8'')
       = block_df (''Epoch 0, Loss G: 1.5, Loss D: 0.9'' @ newline # ''Epoch 1, Loss G: 1.2, Loss D: 0.8'')
   \<and> block_df (''Epoch 0, Loss G: 1.5, Loss D: 0.9'' @ newline # ''Epoch 1, Loss G: 1.2, Loss D: 0.8'')
       = Inr \<lparr>Epoch = [0, 1], Loss_G = [Finite (3 / 2), nearest_double False (6 / 5)],
                Loss_D = [nearest_double False (9 / 10), nearest_double False (4 / 5)]\<rparr>"
proof -
  have a: "newline \<notin> set ''Step info: foo''" by code_simp
  have b: "\<not> startswith_Epoch ''Step info: foo''" by code_simp
  have c: "block_df (''Epoch 0, Loss G: 1.5, Loss D: 0.9'' @ newline # ''Epoch 1, Loss G: 1.2, Loss D: 0.8'')
       = Inr \<lparr>Epoch = [0, 1], Loss_G = [Finite (3 / 2), nearest_double False (6 / 5)],
                Loss_D = [nearest_double False (9 / 10), nearest_double False (4 / 5)]\<rparr>" by code_simp
  from noise_lines_ignored [OF a b, of "''Epoch 0, Loss G: 1.5, Loss D: 0.9''" "''Epoch 1, Loss G: 1.2, Loss D: 0.8''"]
    a b c show ?thesis by blast
qed

text \<open>
  C10. The call raises exactly when some matched block has an epoch line on which one of
  the three fields cannot be read; the value it then returns is the exception alone, with
  no table of any block, also when earlier blocks were read without fault.
\<close>

theorem failure_iff_malformed_line:
  "(\<exists>e. extract_loss_info_from_stdout s = Inl e) \<longleftrightarrow>
   (\<exists>h b. [h, b] \<in> set (findall block_pattern s) \<and>
      (\<exists>line \<in> set (epoch_lines b). \<exists>e. row_of line = Inl e))"
proof
  assume "\<exists>e. extract_loss_info_from_stdout s = Inl e"
  then obtain e where "process (findall block_pattern s) [] = Inl e"
    by (auto simp: extract_loss_info_from_stdout_def)
  then have "\<exists>h b e'. [h, b] \<in> set (findall block_pattern s) \<and> block_df b = Inl e'"
    by (rule process_fails_only) (rule block_matches_pairs)
  then obtain h b e' where
    "[h, b] \<in> set (findall block_pattern s)" "block_df b = Inl e'" by blast
  then show "\<exists>h b. [h, b] \<in> set (findall block_pattern s) \<and>
      (\<exists>line \<in> set (epoch_lines b). \<exists>e. row_of line = Inl e)"
    using block_df_fails by blast
next
  assume "\<exists>h b. [h, b] \<in> set (findall block_pattern s) \<and>
      (\<exists>line \<in> set (epoch_lines b). \<exists>e. row_of line = Inl e)"
  then obtain h b where hb: "[h, b] \<in> set (findall block_pattern s)"
    and "\<exists>line \<in> set (epoch_lines b). \<exists>e. row_of line = Inl e" by blast
  then obtain e where "block_df b = Inl e" using block_df_fails by blast
  from process_fails [OF hb this] show "\<exists>e. extract_loss_info_from_stdout s = Inl e"
    by (simp add: extract_loss_info_from_stdout_def)
qed

theorem failure_iff_malformed_line_witness:
  "extract_loss_info_from_stdout
     ''#START#\<newline>A\<newline>Epoch 0, Loss G: 1.5, Loss D: 0.9\<newline>#END#\<newline>#START#\<newline>B\<newline>Epoch 0, Loss G: 1.5, Loss D: x\<newline>#END#\<newline>''
     = Inl (ValueError ''x'')
   \<and> (\<exists>h b. [h, b] \<in> set (findall block_pattern
         ''#START#\<newline>A\<newline>Epoch 0, Loss G: 1.5, Loss D: 0.9\<newline>#END#\<newline>#START#\<newline>B\<newline>Epoch 0, Loss G: 1.5, Loss D: x\<newline>#END#\<newline>'') \<and>
      (\<exists>line \<in> set (epoch_lines b). \<exists>e. row_of line = Inl e))"
proof -
  have a: "extract_loss_info_from_stdout
     ''#START#\<newline>A\<newline>Epoch 0, Loss G: 1.5, Loss D: 0.9\<newline>#END#\<newline>#START#\<newline>B\<newline>Epoch 0, Loss G: 1.5, Loss D: x\<newline>#END#\<newline>''
     = Inl (ValueError ''x'')"
    by code_simp
  with failure_iff_malformed_line [of "''#START#\<newline>A\<newline>Epoch 0, Loss G: 1.5, Loss D: 0.9\<newline>#END#\<newline>#START#\<newline>B\<newline>Epoch 0, Loss G: 1.5, Loss D: x\<newline>#END#\<newline>''"]
  show ?thesis by blast
qed

subsection \<open>Headers and bodies with no character\<close>

text \<open>
  Where the pattern does as the comments of the source say. A matched block whose header
  is white space only has the identifier \<open>''''\<close>, and, when it is the last block with that
  identifier, the result holds its table under \<open>''''\<close>. In the text, a header line that is
  not empty and has no line break is the header of the match.
\<close>

lemma blank_header_block:
  assumes "extract_loss_info_from_stdout s = Inr out"
    and "findall block_pattern s = pre @ [h, b] # post"
    and "list_all isspace h"
    and "\<forall>m \<in> set post. dataset_id_of m \<noteq> Inr ''''"
  shows "\<exists>df. block_df b = Inr df \<and> map_of out '''' = Some df"
proof -
  from assms(1,2) have p: "process (pre @ [h, b] # post) [] = Inr out"
    by (simp add: extract_loss_info_from_stdout_def)
  from assms(4) strip_blank [OF assms(3)]
  have "\<And>m. m \<in> set post \<Longrightarrow> dataset_id_of m \<noteq> Inr (strip h)" by simp
  from process_last [OF p this] strip_blank [OF assms(3)] show ?thesis by simp
qed

lemma blank_header_key:
  assumes "CHR ''#'' \<notin> set pre"
    and "h \<noteq> []" and "list_all isspace h" and "newline \<notin> set h"
    and "b \<noteq> []" and "\<not> sublist ''#END#'' (tl b @ ''#END'')"
    and "block_df b = Inr df"
    and "findall block_pattern post = []"
  shows "extract_loss_info_from_stdout
           (pre @ ''#START#\<newline>'' @ h @ ''\<newline>'' @ b @ ''#END#'' @ post) = Inr [('''', df)]"
proof -
  let ?blk = "''#START#\<newline>'' @ h @ ''\<newline>'' @ b @ ''#END#'' @ post"
  have m: "match_here block_pattern ?blk = Some ([h, b], post)"
    using assms(2,4,5,6) by (rule block_match_first)
  have "findall block_pattern ?blk = [h, b] # findall block_pattern post"
    using m by (rule findall_hit) simp
  with assms(8) have "findall block_pattern ?blk = [[h, b]]" by simp
  with findall_skip [OF assms(1)] have "findall block_pattern (pre @ ?blk) = [[h, b]]" by simp
  then show ?thesis
    using assms(7) strip_blank [OF assms(3)]
    by (simp add: extract_loss_info_from_stdout_def idx_def)
qed

lemma blank_header_key_example:
  "CHR ''#'' \<notin> set ''log\<newline>'' \<and> list_all isspace '' '' \<and> newline \<notin> set '' ''
   \<and> \<not> sublist ''#END#'' (tl ''Epoch 0, Loss G: 1.5, Loss D: 0.9\<newline>'' @ ''#END'')
   \<and> block_df ''Epoch 0, Loss G: 1.5, Loss D: 0.9\<newline>''
       = Inr \<lparr>Epoch = [0], Loss_G = [Finite (3 / 2)], Loss_D = [nearest_double False (9 / 10)]\<rparr>
   \<and> findall block_pattern ''\<newline>'' = []
   \<and> extract_loss_info_from_stdout
        (''log\<newline>'' @ ''#START#\<newline>'' @ '' '' @ ''\<newline>''
           @ ''Epoch 0, Loss G: 1.5, Loss D: 0.9\<newline>'' @ ''#END#'' @ ''\<newline>'')
       = Inr [('''', \<lparr>Epoch = [0], Loss_G = [Finite (3 / 2)], Loss_D = [nearest_double False (9 / 10)]\<rparr>)]"
proof -
  have a: "CHR ''#'' \<notin> set ''log\<newline>''" by code_simp
  have b: "'' '' \<noteq> []" by simp
  have c: "list_all isspace '' ''" by code_simp
  have d: "newline \<notin> set '' ''" by code_simp
  have e: "''Epoch 0, Loss G: 1.5, Loss D: 0.9\<newline>'' \<noteq> []" by simp
  have f: "\<not> sublist ''#END#'' (tl ''Epoch 0, Loss G: 1.5, Loss D: 0.9\<newline>'' @ ''#END'')"
    by code_simp
  have g: "block_df ''Epoch 0, Loss G: 1.5, Loss D: 0.9\<newline>''
       = Inr \<lparr>Epoch = [0], Loss_G = [Finite (3 / 2)], Loss_D = [nearest_double False (9 / 10)]\<rparr>"
    by code_simp
  have i: "findall block_pattern ''\<newline>'' = []" by code_simp
  from blank_header_key [OF a b c d e f g i] a c d f g i show ?thesis by blast
qed

text \<open>
  C6. A block whose header line is empty after stripping should get the identifier \<open>''''\<close>
  and have its table in the result under that key. The code does not do so for a header
  line with no character at all. The group \<^verbatim>\<open>(.+?)\<close> takes at least one character and,
  under \<^verbatim>\<open>re.DOTALL\<close>, takes the line break of the empty line and the first line of the
  body with it: that line becomes the identifier and its row is missing from the table,
  where the source says of the key that it is the first line of the block. When the
  body has one line only, nothing matches and the block is lost. Neither result has the
  key \<open>''''\<close>.
\<close>

theorem empty_header_line_no_blank_key:
  "extract_loss_info_from_stdout
     ''#START#\<newline>\<newline>Epoch 0, Loss G: 1.5, Loss D: 0.9\<newline>Epoch 1, Loss G: 1.2, Loss D: 0.8\<newline>#END#\<newline>''
     = Inr [(''Epoch 0, Loss G: 1.5, Loss D: 0.9'',
             \<lparr>Epoch = [1], Loss_G = [nearest_double False (6 / 5)], Loss_D = [nearest_double False (4 / 5)]\<rparr>)]
   \<and> extract_loss_info_from_stdout
     ''#START#\<newline>\<newline>Epoch 0, Loss G: 1.5, Loss D: 0.9\<newline>#END#\<newline>'' = Inr []"
  by code_simp

text \<open>
  Where a block with no body is left out: when no other \<open>#END#\<close> comes later in the
  input (and the text before the block is free of \<open>#\<close>), nothing matches and the result
  is the empty dictionary.
\<close>

lemma empty_body_skipped:
  assumes "CHR ''#'' \<notin> set pre"
    and "newline \<notin> set h"
    and "\<not> sublist ''#END#'' (''END#'' @ post)"
  shows "extract_loss_info_from_stdout (pre @ ''#START#\<newline>'' @ h @ ''\<newline>#END#'' @ post) = Inr []"
proof -
  have "findall block_pattern (''#START#\<newline>'' @ h @ ''\<newline>#END#'' @ post) = []"
    by (rule findall_none) (rule no_match_empty_body [OF assms(2,3)])
  with findall_skip [OF assms(1)]
  have "findall block_pattern (pre @ ''#START#\<newline>'' @ h @ ''\<newline>#END#'' @ post) = []" by simp
  then show ?thesis by (simp add: extract_loss_info_from_stdout_def)
qed

lemma empty_body_skipped_example:
  "CHR ''#'' \<notin> set ''log\<newline>'' \<and> newline \<notin> set ''D1''
   \<and> \<not> sublist ''#END#'' (''END#'' @ ''\<newline>'')
   \<and> extract_loss_info_from_stdout (''log\<newline>'' @ ''#START#\<newline>'' @ ''D1'' @ ''\<newline>#END#'' @ ''\<newline>'') = Inr []"
proof -
  have a: "CHR ''#'' \<notin> set ''log\<newline>''" by code_simp
  have b: "newline \<notin> set ''D1''" by code_simp
  have c: "\<not> sublist ''#END#'' (''END#'' @ ''\<newline>'')" by code_simp
  from empty_body_skipped [OF a b c] a b c show ?thesis by blast
qed

text \<open>
  C9. A block whose header line is followed at once by \<open>#END#\<close> should be left out of the
  result, with no entry for its identifier. The code does not leave it out when another
  block follows: the group \<^verbatim>\<open>(.+?)\<close> of the body takes at least one character and runs on
  to the \<open>#END#\<close> of the next block, so the identifier \<open>D1\<close> of the empty block is bound
  to the rows of the block \<open>D2\<close>, and \<open>D2\<close> has no entry, where the source says that a
  block is the text between \<open>#START#\<close> and \<open>#END#\<close>.
\<close>

theorem empty_body_takes_next_block:
  "extract_loss_info_from_stdout
     ''#START#\<newline>D1\<newline>#END#\<newline>#START#\<newline>D2\<newline>Epoch 0, Loss G: 1.5, Loss D: 0.9\<newline>#END#\<newline>''
     = Inr [(''D1'', \<lparr>Epoch = [0], Loss_G = [Finite (3 / 2)], Loss_D = [nearest_double False (9 / 10)]\<rparr>)]"
  by code_simp

end
